theory Spec2Isabelle
  imports Complex_Main
begin

section \<open>Values, errors and the NumPy primitives the notebook relies on\<close>

text \<open>
  The notebook \<^verbatim>\<open>docs/08/notes.ipynb\<close> defines four quadrature routines,
  \<^verbatim>\<open>RiemannSum\<close>, \<^verbatim>\<open>trapezoidal\<close>, \<^verbatim>\<open>simpson\<close> and \<^verbatim>\<open>bode\<close>.
  They compute with float64 values. The embedding idealises float64 as exact real arithmetic:
  a finite value is a \<^typ>\<open>real\<close>, and the one non-finite value that the routines can produce
  from finite inputs, the undefined step \<^verbatim>\<open>nan\<close> of a partition with fewer than two points,
  is kept as a value of its own. Exceptions are values of \<open>py_error\<close>; a routine returns
  \<open>Inl e\<close> when the Python raises and \<open>Inr v\<close> when it returns \<open>v\<close>.
  Subdivision counts are Python integers, hence \<^typ>\<open>int\<close>.
\<close>

datatype py_error = ValueError | ZeroDivisionError | IndexError

datatype fval = NaN | Fin real

fun fadd :: "fval \<Rightarrow> fval \<Rightarrow> fval" where
  "fadd (Fin x) (Fin y) = Fin (x + y)"
| "fadd _ _ = NaN"

fun fmul :: "fval \<Rightarrow> fval \<Rightarrow> fval" where
  "fmul (Fin x) (Fin y) = Fin (x * y)"
| "fmul _ _ = NaN"

text \<open>Division by a numeric literal; the notebook only divides by \<open>3\<close> and \<open>45\<close>.\<close>

fun fdiv_lit :: "fval \<Rightarrow> real \<Rightarrow> fval" where
  "fdiv_lit (Fin x) c = Fin (x / c)"
| "fdiv_lit NaN c = NaN"

text \<open>
  What an integrand returns: a float, or a one-dimensional array of floats. \<^verbatim>\<open>np.sum\<close> of a
  float is that float, of an array the sum of its entries. \<^verbatim>\<open>+\<close> on two such values
  broadcasts: a float is added to every entry of an array, two arrays are added entry by
  entry when they have the same length or one of them has length one, and raise
  \<^verbatim>\<open>ValueError\<close> otherwise.
\<close>

datatype nd = Scalar real | Array "real list"

fun np_sum :: "nd \<Rightarrow> real" where
  "np_sum (Scalar r) = r"
| "np_sum (Array xs) = sum_list xs"

fun np_add :: "nd \<Rightarrow> nd \<Rightarrow> py_error + nd" where
  "np_add (Scalar x) (Scalar y) = Inr (Scalar (x + y))"
| "np_add (Scalar x) (Array ys) = Inr (Array (map (\<lambda>y. x + y) ys))"
| "np_add (Array xs) (Scalar y) = Inr (Array (map (\<lambda>x. x + y) xs))"
| "np_add (Array xs) (Array ys) =
     (if length xs = length ys then Inr (Array (map2 (+) xs ys))
      else if length xs = 1 then Inr (Array (map (\<lambda>y. hd xs + y) ys))
      else if length ys = 1 then Inr (Array (map (\<lambda>x. x + hd ys) xs))
      else Inl ValueError)"

text \<open>
  An integrand is a Python callable. \<^verbatim>\<open>simpson\<close> and \<^verbatim>\<open>bode\<close> call it on single points
  \<^verbatim>\<open>X[k]\<close>; \<^verbatim>\<open>RiemannSum\<close> and \<^verbatim>\<open>trapezoidal\<close> call it once on a whole array and
  sum whatever it returns. The two behaviours of one callable are the two fields of
  \<open>integrand\<close>. A callable that acts on every entry of an array, as \<^verbatim>\<open>np.exp\<close> or
  \<^verbatim>\<open>lambda x: c0 + c1 * x\<close> do, is \<open>elementwise f\<close>; the callable \<^verbatim>\<open>lambda x: c\<close>, which
  returns the float \<open>c\<close> whatever it is given, is \<open>constant_integrand c\<close>.
\<close>

record integrand =
  scalar_call :: "real \<Rightarrow> real"
  array_call :: "real list \<Rightarrow> nd"

definition elementwise :: "(real \<Rightarrow> real) \<Rightarrow> integrand" where
  "elementwise f = \<lparr>scalar_call = f, array_call = (\<lambda>xs. Array (map f xs))\<rparr>"

definition constant_integrand :: "real \<Rightarrow> integrand" where
  "constant_integrand c = \<lparr>scalar_call = (\<lambda>x. c), array_call = (\<lambda>xs. Scalar c)\<rparr>"

text \<open>\<^verbatim>\<open>range(n)\<close>: the integers \<open>0, ..., n - 1\<close>; empty when \<open>n \<le> 0\<close>.\<close>

definition range_py :: "int \<Rightarrow> int list" where
  "range_py n = map int [0..<nat n]"

text \<open>\<^verbatim>\<open>X[k]\<close>: a negative index counts from the end, an index out of range raises.\<close>

definition py_get :: "'a list \<Rightarrow> int \<Rightarrow> py_error + 'a" where
  "py_get xs k =
     (if 0 \<le> k \<and> k < int (length xs) then Inr (xs ! nat k)
      else if k < 0 \<and> 0 \<le> int (length xs) + k then Inr (xs ! nat (int (length xs) + k))
      else Inl IndexError)"

text \<open>
  Modelled from the spec: the partition generator is \<^verbatim>\<open>np.linspace(start, stop, num, retstep=True)\<close>,
  a function of the NumPy library, which is not part of the repository's sources. For \<open>num > 1\<close>
  it is the specification's shared helper: \<open>num\<close> equally spaced points that include both
  end points, together with the step obtained from a single division. Outside that range the
  definition follows the library: a negative \<open>num\<close> raises \<^verbatim>\<open>ValueError\<close>, and for
  \<open>num \<le> 1\<close> the step is undefined (\<^verbatim>\<open>nan\<close>). The branch for a zero step and the
  final overwrite of the last point by \<open>stop\<close> are the library's.
\<close>

definition linspace :: "real \<Rightarrow> real \<Rightarrow> int \<Rightarrow> py_error + (real list \<times> fval)" where
  "linspace start stop num =
     (if num < 0 then Inl ValueError
      else
        let dv = num - 1;
            delta = stop - start;
            y = map real_of_int (range_py num)
        in if dv > 0 then
             let step = delta / real_of_int dv;
                 y1 = (if step = 0 then map (\<lambda>v. v / real_of_int dv * delta) y
                       else map (\<lambda>v. v * step) y);
                 y2 = map (\<lambda>v. v + start) y1;
                 y3 = (if num > 1 then y2[nat (num - 1) := stop] else y2)
             in Inr (y3, Fin step)
           else Inr (map (\<lambda>v. v * delta + start) y, NaN))"

section \<open>The quadrature routines\<close>

text \<open>
  \<^verbatim>\<open>
  def RiemannSum(f, N=8, a=0, b=1, t='mid'):
      D = (b - a) / N  # Step size
      if t[0] == 'l':
          X = [D * i + a for i in range(N)]
      elif t[0] == 'r':
          X = [D * (i + 1) + a for i in range(N)]
      else:
          X = [D * (i + 0.5) + a for i in range(N)]
      return np.sum(f(np.array(X))) * D
  \<close>
  The division comes first and raises \<^verbatim>\<open>ZeroDivisionError\<close> for \<open>N = 0\<close> (the bounds are
  Python numbers); \<^verbatim>\<open>t[0]\<close> raises \<^verbatim>\<open>IndexError\<close> on the empty string. The integrand is
  called once, on the array of all sample points.
\<close>

definition RiemannSum :: "integrand \<Rightarrow> int \<Rightarrow> real \<Rightarrow> real \<Rightarrow> string \<Rightarrow> py_error + fval" where
  "RiemannSum f N a b t =
     (if N = 0 then Inl ZeroDivisionError
      else
        let D = (b - a) / real_of_int N
        in (case py_get t 0 of
              Inl e \<Rightarrow> Inl e
            | Inr c \<Rightarrow>
                let X = (if c = CHR ''l'' then map (\<lambda>i. D * real_of_int i + a) (range_py N)
                         else if c = CHR ''r'' then map (\<lambda>i. D * (real_of_int i + 1) + a) (range_py N)
                         else map (\<lambda>i. D * (real_of_int i + 0.5) + a) (range_py N))
                in Inr (Fin (np_sum (array_call f X) * D))))"

text \<open>
  \<^verbatim>\<open>
  def trapezoidal(f, N=8, a=0, b=1):
      X, D = np.linspace(a, b, N+1, retstep=True)
      return np.sum(f(X[1:]) + f(X[:-1])) * 0.5 * D
  \<close>
  The integrand is called twice, on the slices \<^verbatim>\<open>X[1:]\<close> and \<^verbatim>\<open>X[:-1]\<close>.
\<close>

definition trapezoidal :: "integrand \<Rightarrow> int \<Rightarrow> real \<Rightarrow> real \<Rightarrow> py_error + fval" where
  "trapezoidal f N a b =
     (case linspace a b (N + 1) of
        Inl e \<Rightarrow> Inl e
      | Inr (X, D) \<Rightarrow>
          (case np_add (array_call f (drop 1 X)) (array_call f (butlast X)) of
             Inl e \<Rightarrow> Inl e
           | Inr s \<Rightarrow> Inr (fmul (fmul (Fin (np_sum s)) (Fin 0.5)) D)))"

text \<open>
  \<^verbatim>\<open>
  def simpson(f, N=8, a=0, b=1):
      X, D = np.linspace(a, b, N+1, retstep=True)
      S = 0
      for i in range(N // 2):
          l = X[2 * i]
          m = X[2 * i + 1]
          r = X[2 * i + 2]
          S += D * (f(l) + 4 * f(m) + f(r)) / 3
      return S
  \<close>
  The loop is a recursion over the list of indices, with the accumulator \<open>S\<close>. The
  integrand is called on single points, so \<open>f\<close> is its behaviour on a float.
\<close>

fun simpson_loop :: "(real \<Rightarrow> real) \<Rightarrow> real list \<Rightarrow> fval \<Rightarrow> int list \<Rightarrow> fval \<Rightarrow> py_error + fval" where
  "simpson_loop f X D [] S = Inr S"
| "simpson_loop f X D (i # is) S =
     (case py_get X (2 * i) of Inl e \<Rightarrow> Inl e | Inr l \<Rightarrow>
       (case py_get X (2 * i + 1) of Inl e \<Rightarrow> Inl e | Inr m \<Rightarrow>
         (case py_get X (2 * i + 2) of Inl e \<Rightarrow> Inl e | Inr r \<Rightarrow>
            simpson_loop f X D is (fadd S (fdiv_lit (fmul D (Fin (f l + 4 * f m + f r))) 3)))))"

definition simpson :: "(real \<Rightarrow> real) \<Rightarrow> int \<Rightarrow> real \<Rightarrow> real \<Rightarrow> py_error + fval" where
  "simpson f N a b =
     (case linspace a b (N + 1) of
        Inl e \<Rightarrow> Inl e
      | Inr (X, D) \<Rightarrow> simpson_loop f X D (range_py (N div 2)) (Fin 0))"

text \<open>
  \<^verbatim>\<open>
  def bode(f, N=8, a=0, b=1):
      X, D = np.linspace(a, b, N+1, retstep=True)
      S = 0
      for i in range(N // 4):
          x0 = X[4 * i]
          x1 = X[4 * i + 1]
          x2 = X[4 * i + 2]
          x3 = X[4 * i + 3]
          x4 = X[4 * i + 4]
          S += D * (14 * f(x0) + 64 * f(x1) + 24 * f(x2) + 64 * f(x3) + 14 * f(x4)) / 45
      return S
  \<close>
\<close>

fun bode_loop :: "(real \<Rightarrow> real) \<Rightarrow> real list \<Rightarrow> fval \<Rightarrow> int list \<Rightarrow> fval \<Rightarrow> py_error + fval" where
  "bode_loop f X D [] S = Inr S"
| "bode_loop f X D (i # is) S =
     (case py_get X (4 * i) of Inl e \<Rightarrow> Inl e | Inr x0 \<Rightarrow>
       (case py_get X (4 * i + 1) of Inl e \<Rightarrow> Inl e | Inr x1 \<Rightarrow>
         (case py_get X (4 * i + 2) of Inl e \<Rightarrow> Inl e | Inr x2 \<Rightarrow>
           (case py_get X (4 * i + 3) of Inl e \<Rightarrow> Inl e | Inr x3 \<Rightarrow>
             (case py_get X (4 * i + 4) of Inl e \<Rightarrow> Inl e | Inr x4 \<Rightarrow>
                bode_loop f X D is
                  (fadd S (fdiv_lit (fmul D (Fin (14 * f x0 + 64 * f x1 + 24 * f x2 + 64 * f x3 + 14 * f x4))) 45)))))))"

definition bode :: "(real \<Rightarrow> real) \<Rightarrow> int \<Rightarrow> real \<Rightarrow> real \<Rightarrow> py_error + fval" where
  "bode f N a b =
     (case linspace a b (N + 1) of
        Inl e \<Rightarrow> Inl e
      | Inr (X, D) \<Rightarrow> bode_loop f X D (range_py (N div 4)) (Fin 0))"

section \<open>The quantities of the specification\<close>

text \<open>
  The specification speaks of the partition \<open>X\<^sub>0, ..., X\<^sub>N\<close> of \<open>[a, b]\<close> with step
  \<open>\<Delta>x = (b - a) / N\<close>. \<open>step_size a b N\<close> is that step and \<open>grid a b N k\<close> is \<open>X\<^sub>k\<close>.
\<close>

definition step_size :: "real \<Rightarrow> real \<Rightarrow> int \<Rightarrow> real" where
  "step_size a b N = (b - a) / real_of_int N"

definition grid :: "real \<Rightarrow> real \<Rightarrow> int \<Rightarrow> nat \<Rightarrow> real" where
  "grid a b N k = a + real k * step_size a b N"

text \<open>
  The closed form of the trapezoidal rule, in the words of the specification:
  \<open>\<Delta>x \<cdot> (f(X\<^sub>0)/2 + f(X\<^sub>1) + ... + f(X\<^bsub>N-1\<^esub>) + f(X\<^sub>N)/2)\<close>.
\<close>

definition trapezoidal_closed :: "(real \<Rightarrow> real) \<Rightarrow> int \<Rightarrow> real \<Rightarrow> real \<Rightarrow> real" where
  "trapezoidal_closed f N a b =
     step_size a b N *
       (f (grid a b N 0) / 2 + (\<Sum>i = 1..<nat N. f (grid a b N i)) + f (grid a b N (nat N)) / 2)"

text \<open>
  The pairwise form of the trapezoidal rule, in the words of the specification:
  \<open>(\<Delta>x / 2) \<cdot> \<Sum>\<^bsub>i < N\<^esub> (f(X\<^sub>i) + f(X\<^bsub>i+1\<^esub>))\<close>.
\<close>

definition trapezoidal_pairwise :: "(real \<Rightarrow> real) \<Rightarrow> int \<Rightarrow> real \<Rightarrow> real \<Rightarrow> real" where
  "trapezoidal_pairwise f N a b =
     step_size a b N / 2 * (\<Sum>i<nat N. f (grid a b N i) + f (grid a b N (i + 1)))"

text \<open>
  The Riemann sums of the specification: \<open>\<Delta>x \<cdot> \<Sum>\<^bsub>i < N\<^esub> f(a + (i + s) \<Delta>x)\<close>, with the offset
  \<open>s = 0\<close> for left, \<open>s = 1\<close> for right and \<open>s = 0.5\<close> for middle.
\<close>

definition riemann_formula :: "real \<Rightarrow> (real \<Rightarrow> real) \<Rightarrow> int \<Rightarrow> real \<Rightarrow> real \<Rightarrow> real" where
  "riemann_formula s f N a b =
     step_size a b N * (\<Sum>i<nat N. f (a + (real i + s) * step_size a b N))"

text \<open>Affine and cubic integrands, by their coefficients.\<close>

definition affine_fn :: "real \<Rightarrow> real \<Rightarrow> real \<Rightarrow> real" where
  "affine_fn c0 c1 x = c0 + c1 * x"

definition cubic_fn :: "real \<Rightarrow> real \<Rightarrow> real \<Rightarrow> real \<Rightarrow> real \<Rightarrow> real" where
  "cubic_fn c0 c1 c2 c3 x = c0 + c1 * x + c2 * x ^ 2 + c3 * x ^ 3"

text \<open>Their polynomial primitives, which give the exact value of the integral.\<close>

definition affine_primitive :: "real \<Rightarrow> real \<Rightarrow> real \<Rightarrow> real" where
  "affine_primitive c0 c1 x = c0 * x + c1 * x ^ 2 / 2"

definition cubic_primitive :: "real \<Rightarrow> real \<Rightarrow> real \<Rightarrow> real \<Rightarrow> real \<Rightarrow> real" where
  "cubic_primitive c0 c1 c2 c3 x = c0 * x + c1 * x ^ 2 / 2 + c2 * x ^ 3 / 3 + c3 * x ^ 4 / 4"

section \<open>Auxiliary facts about the primitives\<close>

lemma range_py_nth: "k < nat n \<Longrightarrow> range_py n ! k = int k"
  by (simp add: range_py_def)

lemma length_range_py: "length (range_py n) = nat n"
  by (simp add: range_py_def)

lemma linspace_grid:
  assumes "1 \<le> N"
  shows "linspace a b (N + 1) =
     Inr (map (\<lambda>k. a + real k * ((b - a) / real_of_int N)) [0..<Suc (nat N)],
          Fin ((b - a) / real_of_int N))"
proof -
  let ?D = "(b - a) / real_of_int N"
  let ?y = "map real_of_int (range_py (N + 1))"
  have len: "nat (N + 1) = Suc (nat N)" using assms by simp
  have y1: "(if ?D = 0 then map (\<lambda>v. v / real_of_int N * (b - a)) ?y else map (\<lambda>v. v * ?D) ?y)
             = map (\<lambda>v. v * ?D) ?y" by simp
  have "(map (\<lambda>v. v + a) (map (\<lambda>v. v * ?D) ?y))[nat N := b] = map (\<lambda>k. a + real k * ?D) [0..<Suc (nat N)]"
    (is "?L = ?R")
  proof (rule nth_equalityI)
    show "length ?L = length ?R"
      by (simp add: length_range_py len)
  next
    fix i assume "i < length ?L"
    then have i: "i < Suc (nat N)" by (simp add: length_range_py len)
    show "?L ! i = ?R ! i"
    proof (cases "i = nat N")
      case True
      have "real (nat N) * ?D = b - a" using assms by simp
      then show ?thesis using True i
        by (simp add: length_range_py len del: upt_Suc)
    next
      case False
      then have "i < nat (N + 1)" using i len by simp
      then show ?thesis using False i
        by (simp add: length_range_py range_py_nth nth_list_update del: upt_Suc)
    qed
  qed
  moreover have "linspace a b (N + 1) =
      Inr ((map (\<lambda>v. v + a) (if ?D = 0 then map (\<lambda>v. v / real_of_int N * (b - a)) ?y
                                  else map (\<lambda>v. v * ?D) ?y))[nat N := b], Fin ?D)"
    using assms by (simp add: linspace_def Let_def)
  ultimately show ?thesis by (simp only: y1)
qed

lemma linspace_points:
  assumes "1 \<le> N"
  shows "linspace a b (N + 1) = Inr (map (grid a b N) [0..<Suc (nat N)], Fin (step_size a b N))"
  using linspace_grid [OF assms, of a b] by (simp add: grid_def step_size_def del: upt_Suc)

lemma map2_shift:
  "map2 (+) (map f (drop 1 (map g [0..<Suc n]))) (map f (butlast (map g [0..<Suc n])))
     = map (\<lambda>i. f (g (Suc i)) + f (g i)) [0..<n]"
proof (rule nth_equalityI)
  show "length (map2 (+) (map f (drop 1 (map g [0..<Suc n]))) (map f (butlast (map g [0..<Suc n]))))
      = length (map (\<lambda>i. f (g (Suc i)) + f (g i)) [0..<n])"
    by simp
next
  fix i
  assume "i < length (map2 (+) (map f (drop 1 (map g [0..<Suc n]))) (map f (butlast (map g [0..<Suc n]))))"
  then have i: "i < n" by simp
  have b: "butlast (map g [0..<Suc n]) = map g [0..<n]" by simp
  have d: "drop 1 (map g [0..<Suc n]) ! i = g (Suc i)" using i
    by (simp add: nth_append del: upt_Suc)
  show "map2 (+) (map f (drop 1 (map g [0..<Suc n]))) (map f (butlast (map g [0..<Suc n]))) ! i
      = map (\<lambda>i. f (g (Suc i)) + f (g i)) [0..<n] ! i"
    using i d by (simp add: b del: upt_Suc)
qed

lemma sum_list_upt: "sum_list (map h [0..<n]) = (\<Sum>i<n. h i)"
  by (simp add: interv_sum_list_conv_sum_set_nat atLeast0LessThan)

lemma np_add_elementwise:
  "length xs = length ys \<Longrightarrow>
     np_add (array_call (elementwise f) xs) (array_call (elementwise f) ys)
       = Inr (Array (map2 (+) (map f xs) (map f ys)))"
  by (simp add: elementwise_def)

lemma np_add_self: "\<exists>w. np_add v v = Inr w"
  by (cases v) simp_all

lemma trapezoidal_value:
  assumes "1 \<le> N"
  shows "trapezoidal (elementwise f) N a b =
    Inr (Fin (step_size a b N / 2 * (\<Sum>i<nat N. f (grid a b N i) + f (grid a b N (Suc i)))))"
proof -
  let ?X = "map (grid a b N) [0..<Suc (nat N)]"
  have s: "sum_list (map (\<lambda>i. f (grid a b N (Suc i)) + f (grid a b N i)) [0..<nat N])
      = (\<Sum>i<nat N. f (grid a b N i) + f (grid a b N (Suc i)))"
    by (simp add: sum_list_upt add.commute)
  have len: "length (drop 1 ?X) = length (butlast ?X)" by simp
  have "trapezoidal (elementwise f) N a b =
      Inr (fmul (fmul (Fin (np_sum (Array (map (\<lambda>i. f (grid a b N (Suc i)) + f (grid a b N i))
                                              [0..<nat N])))) (Fin 0.5))
             (Fin (step_size a b N)))"
    by (simp only: trapezoidal_def linspace_points [OF assms] np_add_elementwise [OF len]
          map2_shift sum.case prod.case)
  then show ?thesis using s by simp
qed

section \<open>The loops of Simpson's and Bode's rule as sums\<close>

lemma py_get_nth: "0 \<le> k \<Longrightarrow> k < int (length xs) \<Longrightarrow> py_get xs k = Inr (xs ! nat k)"
  by (simp add: py_get_def)

lemma simpson_loop_sum:
  assumes "\<forall>i\<in>set js. 0 \<le> i \<and> 2 * i + 2 < int (length X)"
  shows "simpson_loop f X (Fin D) js (Fin S) =
     Inr (Fin (S + sum_list (map (\<lambda>i. D * (f (X ! nat (2 * i)) + 4 * f (X ! nat (2 * i + 1))
                                          + f (X ! nat (2 * i + 2))) / 3) js)))"
  using assms
proof (induction js arbitrary: S)
  case Nil
  then show ?case by simp
next
  case (Cons i js)
  then have i: "0 \<le> i" "2 * i + 2 < int (length X)" by simp_all
  have g: "py_get X (2 * i) = Inr (X ! nat (2 * i))"
          "py_get X (2 * i + 1) = Inr (X ! nat (2 * i + 1))"
          "py_get X (2 * i + 2) = Inr (X ! nat (2 * i + 2))"
    using i by (simp_all add: py_get_nth)
  from Cons have "\<forall>i\<in>set js. 0 \<le> i \<and> 2 * i + 2 < int (length X)" by simp
  from Cons.IH [OF this] show ?case
    by (simp add: g add.assoc)
qed

lemma bode_loop_sum:
  assumes "\<forall>i\<in>set js. 0 \<le> i \<and> 4 * i + 4 < int (length X)"
  shows "bode_loop f X (Fin D) js (Fin S) =
     Inr (Fin (S + sum_list (map (\<lambda>i. D * (14 * f (X ! nat (4 * i)) + 64 * f (X ! nat (4 * i + 1))
                  + 24 * f (X ! nat (4 * i + 2)) + 64 * f (X ! nat (4 * i + 3))
                  + 14 * f (X ! nat (4 * i + 4))) / 45) js)))"
  using assms
proof (induction js arbitrary: S)
  case Nil
  then show ?case by simp
next
  case (Cons i js)
  then have i: "0 \<le> i" "4 * i + 4 < int (length X)" by simp_all
  have g: "py_get X (4 * i) = Inr (X ! nat (4 * i))"
          "py_get X (4 * i + 1) = Inr (X ! nat (4 * i + 1))"
          "py_get X (4 * i + 2) = Inr (X ! nat (4 * i + 2))"
          "py_get X (4 * i + 3) = Inr (X ! nat (4 * i + 3))"
          "py_get X (4 * i + 4) = Inr (X ! nat (4 * i + 4))"
    using i by (simp_all add: py_get_nth)
  from Cons have "\<forall>i\<in>set js. 0 \<le> i \<and> 4 * i + 4 < int (length X)" by simp
  from Cons.IH [OF this] show ?case
    by (simp add: g add.assoc)
qed

lemma sum_list_range_py: "sum_list (map h (range_py m)) = (\<Sum>j<nat m. h (int j))"
  by (simp add: range_py_def comp_def sum_list_upt)

lemma grid_nth: "k \<le> nat N \<Longrightarrow> map (grid a b N) [0..<Suc (nat N)] ! k = grid a b N k"
  by (simp del: upt_Suc)

lemma simpson_value:
  assumes "1 \<le> N"
  shows "simpson f N a b =
    Inr (Fin (\<Sum>j<nat (N div 2). step_size a b N / 3 *
            (f (grid a b N (2 * j)) + 4 * f (grid a b N (2 * j + 1)) + f (grid a b N (2 * j + 2)))))"
proof -
  let ?X = "map (grid a b N) [0..<Suc (nat N)]"
  let ?D = "step_size a b N"
  have bound: "\<forall>i\<in>set (range_py (N div 2)). 0 \<le> i \<and> 2 * i + 2 < int (length ?X)"
    using assms by (auto simp: range_py_def)
  have pt: "\<And>j. j < nat (N div 2) \<Longrightarrow>
      ?X ! nat (2 * int j) = grid a b N (2 * j) \<and>
      ?X ! nat (2 * int j + 1) = grid a b N (2 * j + 1) \<and>
      ?X ! nat (2 * int j + 2) = grid a b N (2 * j + 2)"
  proof -
    fix j assume j: "j < nat (N div 2)"
    then have le: "2 * j + 2 \<le> nat N" using assms by linarith
    have n: "nat (2 * int j) = 2 * j" "nat (2 * int j + 1) = 2 * j + 1" "nat (2 * int j + 2) = 2 * j + 2"
      by linarith+
    show "?X ! nat (2 * int j) = grid a b N (2 * j) \<and>
      ?X ! nat (2 * int j + 1) = grid a b N (2 * j + 1) \<and>
      ?X ! nat (2 * int j + 2) = grid a b N (2 * j + 2)"
      unfolding n using le by (simp add: grid_nth del: upt_Suc)
  qed
  have "simpson f N a b = simpson_loop f ?X (Fin ?D) (range_py (N div 2)) (Fin 0)"
    by (simp only: simpson_def linspace_points [OF assms] sum.case prod.case)
  also have "\<dots> = Inr (Fin (0 + (\<Sum>j<nat (N div 2). ?D * (f (?X ! nat (2 * int j)) + 4 * f (?X ! nat (2 * int j + 1))
                                          + f (?X ! nat (2 * int j + 2))) / 3)))"
    by (simp only: simpson_loop_sum [OF bound] sum_list_range_py)
  also have "\<dots> = Inr (Fin (\<Sum>j<nat (N div 2). ?D / 3 *
            (f (grid a b N (2 * j)) + 4 * f (grid a b N (2 * j + 1)) + f (grid a b N (2 * j + 2)))))"
    using pt by simp
  finally show ?thesis .
qed

lemma bode_value:
  assumes "1 \<le> N"
  shows "bode f N a b =
    Inr (Fin (\<Sum>j<nat (N div 4). step_size a b N / 45 *
            (14 * f (grid a b N (4 * j)) + 64 * f (grid a b N (4 * j + 1))
             + 24 * f (grid a b N (4 * j + 2)) + 64 * f (grid a b N (4 * j + 3))
             + 14 * f (grid a b N (4 * j + 4)))))"
proof -
  let ?X = "map (grid a b N) [0..<Suc (nat N)]"
  let ?D = "step_size a b N"
  have bound: "\<forall>i\<in>set (range_py (N div 4)). 0 \<le> i \<and> 4 * i + 4 < int (length ?X)"
    using assms by (auto simp: range_py_def)
  have pt: "\<And>j. j < nat (N div 4) \<Longrightarrow>
      ?X ! nat (4 * int j) = grid a b N (4 * j) \<and>
      ?X ! nat (4 * int j + 1) = grid a b N (4 * j + 1) \<and>
      ?X ! nat (4 * int j + 2) = grid a b N (4 * j + 2) \<and>
      ?X ! nat (4 * int j + 3) = grid a b N (4 * j + 3) \<and>
      ?X ! nat (4 * int j + 4) = grid a b N (4 * j + 4)"
  proof -
    fix j assume j: "j < nat (N div 4)"
    then have le: "4 * j + 4 \<le> nat N" using assms by linarith
    have n: "nat (4 * int j) = 4 * j" "nat (4 * int j + 1) = 4 * j + 1"
      "nat (4 * int j + 2) = 4 * j + 2" "nat (4 * int j + 3) = 4 * j + 3"
      "nat (4 * int j + 4) = 4 * j + 4"
      by linarith+
    show "?X ! nat (4 * int j) = grid a b N (4 * j) \<and>
      ?X ! nat (4 * int j + 1) = grid a b N (4 * j + 1) \<and>
      ?X ! nat (4 * int j + 2) = grid a b N (4 * j + 2) \<and>
      ?X ! nat (4 * int j + 3) = grid a b N (4 * j + 3) \<and>
      ?X ! nat (4 * int j + 4) = grid a b N (4 * j + 4)"
      unfolding n using le by (simp add: grid_nth del: upt_Suc)
  qed
  have "bode f N a b = bode_loop f ?X (Fin ?D) (range_py (N div 4)) (Fin 0)"
    by (simp only: bode_def linspace_points [OF assms] sum.case prod.case)
  also have "\<dots> = Inr (Fin (0 + (\<Sum>j<nat (N div 4). ?D * (14 * f (?X ! nat (4 * int j))
       + 64 * f (?X ! nat (4 * int j + 1)) + 24 * f (?X ! nat (4 * int j + 2))
       + 64 * f (?X ! nat (4 * int j + 3)) + 14 * f (?X ! nat (4 * int j + 4))) / 45)))"
    by (simp only: bode_loop_sum [OF bound] sum_list_range_py)
  also have "\<dots> = Inr (Fin (\<Sum>j<nat (N div 4). ?D / 45 *
            (14 * f (grid a b N (4 * j)) + 64 * f (grid a b N (4 * j + 1))
             + 24 * f (grid a b N (4 * j + 2)) + 64 * f (grid a b N (4 * j + 3))
             + 14 * f (grid a b N (4 * j + 4)))))"
    using pt by simp
  finally show ?thesis .
qed

lemma grid_0: "grid a b N 0 = a"
  by (simp add: grid_def)

lemma grid_N: "1 \<le> N \<Longrightarrow> grid a b N (nat N) = b"
  by (simp add: grid_def step_size_def)

lemma grid_back: "1 \<le> N \<Longrightarrow> k \<le> nat N \<Longrightarrow> grid a b N (nat N - k) = b - real k * step_size a b N"
  by (simp add: grid_def step_size_def field_simps of_nat_diff)

section \<open>Subdivision counts below one\<close>

lemma simpson_small: "N = 0 \<or> N = - 1 \<Longrightarrow> simpson f N a b = Inr (Fin 0)"
  by (auto simp: simpson_def linspace_def range_py_def)

lemma bode_small: "N = 0 \<or> N = - 1 \<Longrightarrow> bode f N a b = Inr (Fin 0)"
  by (auto simp: bode_def linspace_def range_py_def)

lemma trapezoidal_small:
  assumes "N = 0 \<or> N = - 1"
  shows "trapezoidal f N a b = Inr NaN"
proof -
  obtain w where w: "np_add (array_call f []) (array_call f []) = Inr w"
    using np_add_self by blast
  from assms have "linspace a b (N + 1) = Inr ([a], NaN) \<or> linspace a b (N + 1) = Inr ([], NaN)"
    by (auto simp: linspace_def range_py_def)
  then show ?thesis
    by (auto simp: trapezoidal_def w)
qed

lemma simpson_negative: "N < - 1 \<Longrightarrow> simpson f N a b = Inl ValueError"
  by (simp add: simpson_def linspace_def)

lemma bode_negative: "N < - 1 \<Longrightarrow> bode f N a b = Inl ValueError"
  by (simp add: bode_def linspace_def)

lemma trapezoidal_negative: "N < - 1 \<Longrightarrow> trapezoidal f N a b = Inl ValueError"
  by (simp add: trapezoidal_def linspace_def)

lemma simpson_cases:
  "simpson f N a b = Inl ValueError \<and> N < - 1 \<or> (\<exists>r. simpson f N a b = Inr (Fin r)) \<and> - 1 \<le> N"
proof -
  consider "N < - 1" | "N = 0 \<or> N = - 1" | "1 \<le> N" by linarith
  then show ?thesis
  proof cases
    case 1 then show ?thesis by (simp add: simpson_negative)
  next
    case 2 then show ?thesis using simpson_small [OF 2] by auto
  next
    case 3 then show ?thesis using simpson_value [OF 3] by simp
  qed
qed

lemma bode_cases:
  "bode f N a b = Inl ValueError \<and> N < - 1 \<or> (\<exists>r. bode f N a b = Inr (Fin r)) \<and> - 1 \<le> N"
proof -
  consider "N < - 1" | "N = 0 \<or> N = - 1" | "1 \<le> N" by linarith
  then show ?thesis
  proof cases
    case 1 then show ?thesis by (simp add: bode_negative)
  next
    case 2 then show ?thesis using bode_small [OF 2] by auto
  next
    case 3 then show ?thesis using bode_value [OF 3] by simp
  qed
qed

section \<open>Counting pairs and groups\<close>

lemma half_count: "even N \<Longrightarrow> 0 \<le> N \<Longrightarrow> 2 * nat (N div 2) = nat N"
  by (elim evenE) simp

lemma quarter_count: "4 dvd N \<Longrightarrow> 0 \<le> N \<Longrightarrow> 4 * nat (N div 4) = nat N"
  by (elim dvdE) simp

lemma half_count_odd: "odd N \<Longrightarrow> 1 \<le> N \<Longrightarrow> 2 * nat (N div 2) = nat N - 1"
  by (elim oddE) (simp add: nat_add_distrib nat_mult_distrib)

lemma quarter_count_rem: "1 \<le> N \<Longrightarrow> 4 * nat (N div 4) = nat N - nat (N mod 4)"
proof -
  assume N: "1 \<le> N"
  have "N = 4 * (N div 4) + N mod 4" by simp
  moreover have "0 \<le> N mod 4" "0 \<le> N div 4" using N by simp_all
  ultimately show ?thesis by linarith
qed

section \<open>Riemann sums as sums over the sample index\<close>

lemma py_get_head: "py_get (c # cs) 0 = Inr c"
  by (simp add: py_get_def)

lemma py_get_empty: "py_get [] 0 = Inl IndexError"
  by (simp add: py_get_def)

lemma RiemannSum_Cons:
  assumes "N \<noteq> 0"
  shows "RiemannSum (elementwise f) N a b (c # cs) =
     Inr (Fin (step_size a b N *
       (\<Sum>i<nat N. f (a + (real i + (if c = CHR ''l'' then 0 else if c = CHR ''r'' then 1 else 1 / 2))
                            * step_size a b N))))"
  using assms
  by (simp add: RiemannSum_def elementwise_def py_get_head Let_def sum_list_range_py step_size_def
        comp_def mult.commute add.commute)

lemma RiemannSum_negative:
  assumes "N < 0"
  shows "RiemannSum g N a b (c # cs) = Inr (Fin (np_sum (array_call g []) * step_size a b N))"
proof -
  have r: "range_py N = []" using assms by (simp add: range_py_def)
  from assms show ?thesis
    by (simp add: RiemannSum_def py_get_head r step_size_def Let_def)
qed


lemma RiemannSum_zero: "RiemannSum g 0 a b t = Inl ZeroDivisionError"
  by (simp add: RiemannSum_def)

lemma RiemannSum_empty: "N \<noteq> 0 \<Longrightarrow> RiemannSum g N a b [] = Inl IndexError"
  by (simp add: RiemannSum_def py_get_empty)


section \<open>Pairwise and closed form of the trapezoidal sum\<close>

lemma pair_sum:
  fixes g :: "nat \<Rightarrow> real"
  shows "(\<Sum>i<Suc m. g i + g (Suc i)) = g 0 + 2 * (\<Sum>i = 1..<Suc m. g i) + g (Suc m)"
  by (induction m) simp_all

lemma trapezoidal_closed_eq:
  assumes "1 \<le> N"
  shows "step_size a b N / 2 * (\<Sum>i<nat N. f (grid a b N i) + f (grid a b N (Suc i)))
       = trapezoidal_closed f N a b"
proof -
  from assms have "0 < nat N" by simp
  then obtain m where m: "nat N = Suc m" by (cases "nat N") simp_all
  show ?thesis
    unfolding trapezoidal_closed_def m pair_sum [of "\<lambda>i. f (grid a b N i)" m]
    by (simp add: algebra_simps)
qed

section \<open>Exactness on polynomials\<close>

lemma grid_Suc: "grid a b N (Suc k) = grid a b N k + step_size a b N"
  by (simp add: grid_def algebra_simps)

lemma affine_panel:
  "D / 2 * (affine_fn c0 c1 x + affine_fn c0 c1 (x + D))
     = affine_primitive c0 c1 (x + D) - affine_primitive c0 c1 x"
  by (simp add: affine_fn_def affine_primitive_def power2_eq_square algebra_simps)

lemma cubic_panel:
  "D / 3 * (cubic_fn c0 c1 c2 c3 x + 4 * cubic_fn c0 c1 c2 c3 (x + D) + cubic_fn c0 c1 c2 c3 (x + D + D))
     = cubic_primitive c0 c1 c2 c3 (x + D + D) - cubic_primitive c0 c1 c2 c3 x"
  by (simp add: cubic_fn_def cubic_primitive_def power2_eq_square power3_eq_cube power4_eq_xxxx
        field_simps)

lemma trapezoidal_affine:
  assumes "1 \<le> N"
  shows "trapezoidal (elementwise (affine_fn c0 c1)) N a b
       = Inr (Fin (affine_primitive c0 c1 b - affine_primitive c0 c1 a))"
proof -
  let ?P = "\<lambda>k. affine_primitive c0 c1 (grid a b N k)"
  have "step_size a b N / 2 *
          (\<Sum>i<nat N. affine_fn c0 c1 (grid a b N i) + affine_fn c0 c1 (grid a b N (Suc i)))
      = (\<Sum>i<nat N. step_size a b N / 2 *
          (affine_fn c0 c1 (grid a b N i) + affine_fn c0 c1 (grid a b N i + step_size a b N)))"
    by (simp only: sum_distrib_left grid_Suc)
  also have "\<dots> = (\<Sum>i<nat N. ?P (Suc i) - ?P i)"
    by (simp only: affine_panel grid_Suc)
  also have "\<dots> = ?P (nat N) - ?P 0"
    by (rule sum_lessThan_telescope)
  finally show ?thesis
    using trapezoidal_value [OF assms, of "affine_fn c0 c1" a b] grid_N [OF assms, of a b]
    by (simp add: grid_0)
qed

lemma simpson_cubic:
  assumes "even N" and "2 \<le> N"
  shows "simpson (cubic_fn c0 c1 c2 c3) N a b
       = Inr (Fin (cubic_primitive c0 c1 c2 c3 b - cubic_primitive c0 c1 c2 c3 a))"
proof -
  let ?f = "cubic_fn c0 c1 c2 c3"
  let ?D = "step_size a b N"
  let ?P = "\<lambda>j. cubic_primitive c0 c1 c2 c3 (grid a b N (2 * j))"
  have N: "1 \<le> N" using assms by simp
  have g1: "\<And>j. grid a b N (2 * j + 1) = grid a b N (2 * j) + ?D"
    and g2: "\<And>j. grid a b N (2 * j + 2) = grid a b N (2 * j) + ?D + ?D"
    and g3: "\<And>j. grid a b N (2 * Suc j) = grid a b N (2 * j) + ?D + ?D"
    by (simp_all add: grid_def algebra_simps)
  have "(\<Sum>j<nat (N div 2). ?D / 3 *
          (?f (grid a b N (2 * j)) + 4 * ?f (grid a b N (2 * j + 1)) + ?f (grid a b N (2 * j + 2))))
      = (\<Sum>j<nat (N div 2). ?P (Suc j) - ?P j)"
    by (simp only: g1 g2 g3 cubic_panel)
  also have "\<dots> = ?P (nat (N div 2)) - ?P 0"
    by (rule sum_lessThan_telescope)
  also have "\<dots> = cubic_primitive c0 c1 c2 c3 b - cubic_primitive c0 c1 c2 c3 a"
    using assms grid_N [OF N, of a b] by (simp add: half_count grid_0)
  finally show ?thesis
    using simpson_value [OF N, of ?f a b] by simp
qed

lemma affine_primitive_deriv:
  "(affine_primitive c0 c1 has_real_derivative affine_fn c0 c1 x) (at x)"
  unfolding affine_primitive_def [abs_def] affine_fn_def
  by (auto intro!: derivative_eq_intros)

lemma cubic_primitive_deriv:
  "(cubic_primitive c0 c1 c2 c3 has_real_derivative cubic_fn c0 c1 c2 c3 x) (at x)"
  unfolding cubic_primitive_def [abs_def] cubic_fn_def
  by (auto intro!: derivative_eq_intros simp: power2_eq_square power3_eq_cube)

lemma primitive_difference:
  fixes F P :: "real \<Rightarrow> real"
  assumes "a \<le> b"
    and F: "\<forall>x. a \<le> x \<and> x \<le> b \<longrightarrow> (F has_real_derivative f x) (at x)"
    and P: "\<forall>x. (P has_real_derivative f x) (at x)"
  shows "F b - F a = P b - P a"
proof (cases "a = b")
  case True
  then show ?thesis by simp
next
  case False
  with assms have ab: "a < b" by simp
  let ?G = "\<lambda>x. F x - P x"
  have d: "(?G has_real_derivative 0) (at x)" if "a \<le> x" "x \<le> b" for x
    using that F P by (auto intro!: derivative_eq_intros)
  have c: "continuous_on {a..b} ?G"
    using d by (meson DERIV_continuous atLeastAtMost_iff continuous_at_imp_continuous_on)
  have "?G b = ?G a"
    by (rule DERIV_isconst2 [OF ab c]) (use d ab in auto)
  then show ?thesis by simp
qed

section \<open>The claims of the specification\<close>

subsection \<open>Invalid subdivision counts\<close>

text \<open>
  Claim C1, as stated: calling \<open>simpson\<close> with an odd subdivision count (such as \<open>N = 7\<close>), or
  \<open>bode\<close> with a count that is not a multiple of four (such as \<open>N = 6\<close>), fails with an error
  reported to the caller. The routines contain no check of the count: with the constant
  integrand \<open>1\<close> on \<open>[0, 1]\<close> both calls return a number, \<open>6/7\<close> and \<open>2/3\<close>, where the
  integral is \<open>1\<close>.
\<close>

theorem simpson_bode_count_unchecked_counterexample:
  "simpson (affine_fn 1 0) 7 0 1 = Inr (Fin (6 / 7)) \<and> bode (affine_fn 1 0) 6 0 1 = Inr (Fin (2 / 3))"
  by (simp add: simpson_def bode_def linspace_def range_py_def py_get_def affine_fn_def upt_rec)

text \<open>
  Claim C1, amended: an odd count for \<open>simpson\<close>, or a count that is not a multiple of four
  for \<open>bode\<close>, is not an error in itself. Such a call fails exactly when \<open>N + 1\<close> is negative
  (odd \<open>N \<le> -3\<close> for \<open>simpson\<close>, \<open>N \<le> -2\<close> for \<open>bode\<close>), with the \<^verbatim>\<open>ValueError\<close> of the
  partition generator; for every other such \<open>N\<close> it returns a finite number.
\<close>

theorem simpson_bode_count_unchecked:
  "(odd N \<longrightarrow>
      ((\<exists>e. simpson f N a b = Inl e) \<longleftrightarrow> N \<le> - 3) \<and>
      (N \<le> - 3 \<longrightarrow> simpson f N a b = Inl ValueError) \<and>
      (- 1 \<le> N \<longrightarrow> (\<exists>r. simpson f N a b = Inr (Fin r)))) \<and>
   (\<not> 4 dvd N \<longrightarrow>
      ((\<exists>e. bode f N a b = Inl e) \<longleftrightarrow> N \<le> - 2) \<and>
      (N \<le> - 2 \<longrightarrow> bode f N a b = Inl ValueError) \<and>
      (- 1 \<le> N \<longrightarrow> (\<exists>r. bode f N a b = Inr (Fin r))))"
proof -
  have s: "odd N \<Longrightarrow> N < - 1 \<longleftrightarrow> N \<le> - 3" by presburger
  show ?thesis
    using simpson_cases [of f N a b] bode_cases [of f N a b] s by auto
qed

theorem simpson_bode_count_unchecked_witness:
  "odd (7::int) \<and> - 1 \<le> (7::int) \<and> (\<exists>r. simpson id 7 0 1 = Inr (Fin r)) \<and>
   \<not> 4 dvd (6::int) \<and> (\<exists>r. bode id 6 0 1 = Inr (Fin r)) \<and>
   odd (- 3::int) \<and> simpson id (- 3) 0 1 = Inl ValueError \<and>
   \<not> 4 dvd (- 2::int) \<and> bode id (- 2) 0 1 = Inl ValueError"
  using simpson_bode_count_unchecked [of 7 id 0 1] simpson_bode_count_unchecked [of 6 id 0 1]
    simpson_bode_count_unchecked [of "- 3" id 0 1] simpson_bode_count_unchecked [of "- 2" id 0 1]
  by simp

text \<open>
  Claim C2, as stated: for every rule a subdivision count \<open>N \<le> 0\<close> is reported to the caller
  as a failure and never turned into a result. With \<open>N = 0\<close>, \<open>simpson\<close> and \<open>bode\<close> return
  \<open>0\<close> and \<open>trapezoidal\<close> returns \<^verbatim>\<open>nan\<close>; with \<open>N = -1\<close> and the integrand
  \<^verbatim>\<open>lambda x: 1\<close> on \<open>[0, 1]\<close>, \<open>RiemannSum\<close> returns \<open>-1\<close>.
\<close>

theorem nonpositive_count_counterexample:
  "simpson (affine_fn 1 0) 0 0 1 = Inr (Fin 0) \<and> bode (affine_fn 1 0) 0 0 1 = Inr (Fin 0)
   \<and> trapezoidal (constant_integrand 1) 0 0 1 = Inr NaN
   \<and> RiemannSum (constant_integrand 1) (- 1) 0 1 ''mid'' = Inr (Fin (- 1))"
  by (simp add: simpson_def bode_def trapezoidal_def RiemannSum_def linspace_def range_py_def
        py_get_def constant_integrand_def)

text \<open>
  Claim C2, amended: for \<open>N \<le> 0\<close> the routines fail only in these cases: \<open>RiemannSum\<close> with
  \<open>N = 0\<close> (\<^verbatim>\<open>ZeroDivisionError\<close>), \<open>RiemannSum\<close> with \<open>N < 0\<close> and an empty kind string
  (\<^verbatim>\<open>IndexError\<close>), and \<open>trapezoidal\<close>, \<open>simpson\<close>, \<open>bode\<close> with \<open>N \<le> -2\<close>
  (\<^verbatim>\<open>ValueError\<close> of the partition generator). Otherwise they return without error:
  \<open>RiemannSum\<close> with \<open>N < 0\<close> returns \<^verbatim>\<open>np.sum(f(np.array([]))) * (b - a) / N\<close>, which is \<open>0\<close>
  for an integrand that acts on every entry of an array and \<open>c (b - a) / N\<close> for the
  integrand \<^verbatim>\<open>lambda x: c\<close>; \<open>simpson\<close> and \<open>bode\<close> with \<open>N \<in> {0, -1}\<close> return \<open>0\<close>; and
  \<open>trapezoidal\<close> with \<open>N \<in> {0, -1}\<close> returns \<^verbatim>\<open>nan\<close>.
\<close>

theorem nonpositive_count:
  assumes "N \<le> 0"
  shows "RiemannSum g N a b t =
           (if N = 0 then Inl ZeroDivisionError else if t = [] then Inl IndexError
            else Inr (Fin (np_sum (array_call g []) * step_size a b N)))
    \<and> np_sum (array_call (elementwise f) []) = 0
    \<and> np_sum (array_call (constant_integrand c) []) = c
    \<and> trapezoidal g N a b = (if N \<le> - 2 then Inl ValueError else Inr NaN)
    \<and> simpson f N a b = (if N \<le> - 2 then Inl ValueError else Inr (Fin 0))
    \<and> bode f N a b = (if N \<le> - 2 then Inl ValueError else Inr (Fin 0))"
proof -
  have r: "RiemannSum g N a b t =
           (if N = 0 then Inl ZeroDivisionError else if t = [] then Inl IndexError
            else Inr (Fin (np_sum (array_call g []) * step_size a b N)))"
  proof (cases t)
    case Nil
    then show ?thesis by (simp add: RiemannSum_zero RiemannSum_empty)
  next
    case (Cons c cs)
    show ?thesis
    proof (cases "N = 0")
      case True
      then show ?thesis by (simp add: RiemannSum_zero)
    next
      case False
      with assms have "N < 0" by simp
      from RiemannSum_negative [OF this] False show ?thesis unfolding Cons by simp
    qed
  qed
  have e: "np_sum (array_call (elementwise f) []) = 0"
    "np_sum (array_call (constant_integrand c) []) = c"
    by (simp_all add: elementwise_def constant_integrand_def)
  consider "N \<le> - 2" | "N = 0 \<or> N = - 1" using assms by linarith
  then show ?thesis
  proof cases
    case 1
    then have "N < - 1" by simp
    then show ?thesis using r e 1
      by (simp add: trapezoidal_negative simpson_negative bode_negative)
  next
    case 2
    then have "\<not> N \<le> - 2" by auto
    then show ?thesis using r e
      by (simp add: trapezoidal_small [OF 2] simpson_small [OF 2] bode_small [OF 2])
  qed
qed

theorem nonpositive_count_witness:
  "(0::int) \<le> 0 \<and> (- 1::int) \<le> 0 \<and> (- 5::int) \<le> 0
    \<and> RiemannSum (constant_integrand 1) 0 0 1 ''mid'' = Inl ZeroDivisionError
    \<and> RiemannSum (constant_integrand 1) (- 1) 0 1 ''mid'' = Inr (Fin (- 1))
    \<and> RiemannSum (elementwise (affine_fn 1 0)) (- 1) 0 1 ''mid'' = Inr (Fin 0)
    \<and> trapezoidal (constant_integrand 1) 0 0 1 = Inr NaN
    \<and> trapezoidal (constant_integrand 1) (- 5) 0 1 = Inl ValueError
    \<and> simpson (affine_fn 1 0) 0 0 1 = Inr (Fin 0)
    \<and> simpson (affine_fn 1 0) (- 5) 0 1 = Inl ValueError
    \<and> bode (affine_fn 1 0) 0 0 1 = Inr (Fin 0)
    \<and> bode (affine_fn 1 0) (- 5) 0 1 = Inl ValueError"
proof -
  have h: "(0::int) \<le> 0" "(- 1::int) \<le> 0" "(- 5::int) \<le> 0" by simp_all
  show ?thesis
    using nonpositive_count [OF h(1), of "constant_integrand 1" 0 1 "''mid''" "affine_fn 1 0" 1]
      nonpositive_count [OF h(2), of "constant_integrand 1" 0 1 "''mid''" "affine_fn 1 0" 1]
      nonpositive_count [OF h(2), of "elementwise (affine_fn 1 0)" 0 1 "''mid''" "affine_fn 1 0" 1]
      nonpositive_count [OF h(3), of "constant_integrand 1" 0 1 "''mid''" "affine_fn 1 0" 1]
    by (simp add: step_size_def)
qed

subsection \<open>What the rules compute\<close>

text \<open>
  Claim C3, as stated: for every integrand \<open>f\<close>, every \<open>N \<ge> 1\<close> and all bounds \<open>a\<close>, \<open>b\<close>,
  the trapezoidal rule returns \<open>(\<Delta>x / 2) \<cdot> \<Sum>\<^bsub>i < N\<^esub> (f(X\<^sub>i) + f(X\<^bsub>i+1\<^esub>))\<close>. The routine
  calls the integrand on whole arrays and sums what comes back. The integrand
  \<^verbatim>\<open>lambda x: 1\<close> returns the float \<open>1\<close> for an array, so with \<open>N = 4\<close> on \<open>[0, 1]\<close> the
  routine returns \<open>(1 + 1) \<cdot> 0.5 \<cdot> 0.25 = 1/4\<close>, while the pairwise form is \<open>1\<close>.
\<close>

theorem trapezoidal_pairwise_form_counterexample:
  "trapezoidal (constant_integrand 1) 4 0 1 = Inr (Fin (1 / 4))
    \<and> trapezoidal_pairwise (scalar_call (constant_integrand 1)) 4 0 1 = 1"
proof -
  have n: "nat 4 = Suc (Suc (Suc (Suc 0)))" by simp
  have "trapezoidal (constant_integrand 1) 4 0 1 = Inr (Fin (1 / 4))"
    by (simp add: trapezoidal_def linspace_def range_py_def constant_integrand_def)
  moreover have "trapezoidal_pairwise (scalar_call (constant_integrand 1)) 4 0 1 = 1"
    unfolding trapezoidal_pairwise_def n by (simp add: constant_integrand_def step_size_def)
  ultimately show ?thesis by blast
qed

text \<open>
  Claim C3, amended: for every integrand that acts on every entry of an array (\<^verbatim>\<open>f(X)\<close> is
  the array of the \<^verbatim>\<open>f(X[i])\<close>), every \<open>N \<ge> 1\<close> and all bounds \<open>a\<close>, \<open>b\<close>, the trapezoidal
  rule builds the \<open>N + 1\<close> equally spaced points \<open>X\<^sub>0, ..., X\<^sub>N\<close> with \<open>X\<^sub>0 = a\<close> and
  \<open>X\<^sub>N = b\<close> and the step \<open>\<Delta>x = (b - a) / N\<close>, and returns
  \<open>(\<Delta>x / 2) \<cdot> \<Sum>\<^bsub>i < N\<^esub> (f(X\<^sub>i) + f(X\<^bsub>i+1\<^esub>))\<close>.
\<close>

theorem trapezoidal_pairwise_form:
  assumes "1 \<le> N"
  shows "linspace a b (N + 1) = Inr (map (grid a b N) [0..<nat N + 1], Fin (step_size a b N))
       \<and> length (map (grid a b N) [0..<nat N + 1]) = nat N + 1
       \<and> grid a b N 0 = a \<and> grid a b N (nat N) = b
       \<and> step_size a b N = (b - a) / real_of_int N
       \<and> trapezoidal (elementwise f) N a b =
           Inr (Fin (step_size a b N / 2 * (\<Sum>i<nat N. f (grid a b N i) + f (grid a b N (i + 1)))))
       \<and> trapezoidal (elementwise f) N a b = Inr (Fin (trapezoidal_pairwise f N a b))"
  using linspace_points [OF assms, of a b] trapezoidal_value [OF assms, of f a b] grid_N [OF assms, of a b]
  by (simp add: grid_0 step_size_def trapezoidal_pairwise_def del: upt_Suc)

theorem trapezoidal_pairwise_form_witness:
  "(1::int) \<le> 2 \<and> trapezoidal (elementwise (affine_fn 0 1)) 2 0 1 = Inr (Fin (1 / 2))"
proof -
  have h: "(1::int) \<le> 2" by simp
  have e: "step_size 0 1 2 / 2 *
      (\<Sum>i<nat 2. affine_fn 0 1 (grid 0 1 2 i) + affine_fn 0 1 (grid 0 1 2 (i + 1))) = 1 / 2"
    by (simp add: affine_fn_def grid_def step_size_def numeral_2_eq_2)
  have "trapezoidal (elementwise (affine_fn 0 1)) 2 0 1 = Inr (Fin (1 / 2))"
    using trapezoidal_pairwise_form [OF h, of 0 1 "affine_fn 0 1"] unfolding e by blast
  then show ?thesis using h by blast
qed

text \<open>
  Claim C4. For every integrand \<open>f\<close>, every even \<open>N \<ge> 2\<close> and all bounds \<open>a\<close>, \<open>b\<close>,
  \<open>simpson\<close> partitions \<open>[a, b]\<close> into \<open>N / 2\<close> pairs of adjacent sub-intervals and returns
  the sum over the pairs of \<open>(\<Delta>x / 3) (f(x\<^sub>0) + 4 f(x\<^sub>1) + f(x\<^sub>2))\<close>, where \<open>x\<^sub>0, x\<^sub>1, x\<^sub>2\<close> are
  the consecutive partition points \<open>X\<^bsub>2j\<^esub>, X\<^bsub>2j+1\<^esub>, X\<^bsub>2j+2\<^esub>\<close> of pair \<open>j\<close> and
  \<open>\<Delta>x = (b - a) / N\<close>. The pairs use all \<open>N\<close> sub-intervals: the last point is \<open>b\<close>.
\<close>

theorem simpson_pairs:
  assumes "even N" and "2 \<le> N"
  shows "linspace a b (N + 1) = Inr (map (grid a b N) [0..<nat N + 1], Fin (step_size a b N))
       \<and> step_size a b N = (b - a) / real_of_int N
       \<and> 2 * nat (N div 2) = nat N
       \<and> grid a b N 0 = a \<and> grid a b N (2 * nat (N div 2)) = b
       \<and> simpson f N a b =
           Inr (Fin (\<Sum>j<nat (N div 2). step_size a b N / 3 *
             (f (grid a b N (2 * j)) + 4 * f (grid a b N (2 * j + 1)) + f (grid a b N (2 * j + 2)))))"
proof -
  have N: "1 \<le> N" using assms by simp
  have c: "2 * nat (N div 2) = nat N" using assms by (simp add: half_count)
  show ?thesis
    using linspace_points [OF N, of a b] simpson_value [OF N, of f a b] grid_N [OF N, of a b]
    by (simp add: c grid_0 step_size_def del: upt_Suc)
qed

theorem simpson_pairs_witness:
  "even (4::int) \<and> (2::int) \<le> 4 \<and> simpson (affine_fn 0 1) 4 0 1 = Inr (Fin (1 / 2))"
proof -
  have h: "even (4::int)" "(2::int) \<le> 4" by simp_all
  have e: "(\<Sum>j<nat (4 div 2). step_size 0 1 4 / 3 *
             (affine_fn 0 1 (grid 0 1 4 (2 * j)) + 4 * affine_fn 0 1 (grid 0 1 4 (2 * j + 1))
              + affine_fn 0 1 (grid 0 1 4 (2 * j + 2)))) = 1 / 2"
    by (simp add: affine_fn_def grid_def step_size_def numeral_2_eq_2)
  have "simpson (affine_fn 0 1) 4 0 1 = Inr (Fin (1 / 2))"
    using simpson_pairs [OF h, of 0 1 "affine_fn 0 1"] unfolding e by blast
  then show ?thesis using h by blast
qed

text \<open>
  Claim C5. For every integrand \<open>f\<close>, every positive multiple \<open>N\<close> of four and all bounds
  \<open>a\<close>, \<open>b\<close>, \<open>bode\<close> partitions \<open>[a, b]\<close> into \<open>N / 4\<close> groups of five consecutive points
  \<open>x\<^sub>0, ..., x\<^sub>4\<close> and returns the sum over the groups of
  \<open>(\<Delta>x / 45) (14 f(x\<^sub>0) + 64 f(x\<^sub>1) + 24 f(x\<^sub>2) + 64 f(x\<^sub>3) + 14 f(x\<^sub>4))\<close>, with
  \<open>\<Delta>x = (b - a) / N\<close>.
\<close>

theorem bode_groups:
  assumes "4 dvd N" and "0 < N"
  shows "linspace a b (N + 1) = Inr (map (grid a b N) [0..<nat N + 1], Fin (step_size a b N))
       \<and> step_size a b N = (b - a) / real_of_int N
       \<and> 4 * nat (N div 4) = nat N
       \<and> grid a b N 0 = a \<and> grid a b N (4 * nat (N div 4)) = b
       \<and> bode f N a b =
           Inr (Fin (\<Sum>j<nat (N div 4). step_size a b N / 45 *
             (14 * f (grid a b N (4 * j)) + 64 * f (grid a b N (4 * j + 1))
              + 24 * f (grid a b N (4 * j + 2)) + 64 * f (grid a b N (4 * j + 3))
              + 14 * f (grid a b N (4 * j + 4)))))"
proof -
  have N: "1 \<le> N" using assms by simp
  have c: "4 * nat (N div 4) = nat N" using assms by (simp add: quarter_count)
  show ?thesis
    using linspace_points [OF N, of a b] bode_value [OF N, of f a b] grid_N [OF N, of a b]
    by (simp add: c grid_0 step_size_def del: upt_Suc)
qed

theorem bode_groups_witness:
  "4 dvd (8::int) \<and> (0::int) < 8 \<and> bode (affine_fn 0 1) 8 0 1 = Inr (Fin (1 / 2))"
proof -
  have h: "4 dvd (8::int)" "(0::int) < 8" by simp_all
  have e: "(\<Sum>j<nat (8 div 4). step_size 0 1 8 / 45 *
             (14 * affine_fn 0 1 (grid 0 1 8 (4 * j)) + 64 * affine_fn 0 1 (grid 0 1 8 (4 * j + 1))
              + 24 * affine_fn 0 1 (grid 0 1 8 (4 * j + 2)) + 64 * affine_fn 0 1 (grid 0 1 8 (4 * j + 3))
              + 14 * affine_fn 0 1 (grid 0 1 8 (4 * j + 4)))) = 1 / 2"
    by (simp add: affine_fn_def grid_def step_size_def numeral_2_eq_2)
  have "bode (affine_fn 0 1) 8 0 1 = Inr (Fin (1 / 2))"
    using bode_groups [OF h, of 0 1 "affine_fn 0 1"] unfolding e by blast
  then show ?thesis using h by blast
qed

text \<open>
  Claim C6, as stated: for every integrand \<open>f\<close>, every \<open>N \<ge> 1\<close>, all bounds and each of the
  kinds left, middle and right, \<open>RiemannSum\<close> returns \<open>\<Delta>x \<cdot> \<Sum> f(x\<^sub>i)\<close> over \<open>N\<close> sample points.
  The routine calls the integrand once on the array of sample points and sums what comes
  back. For \<^verbatim>\<open>lambda x: 1\<close> that is the float \<open>1\<close>, so with \<open>N = 4\<close> on \<open>[0, 1]\<close> every kind
  returns \<open>1 \<cdot> 0.25 = 1/4\<close>, while each Riemann sum is \<open>1\<close>.
\<close>

theorem RiemannSum_kinds_counterexample:
  "RiemannSum (constant_integrand 1) 4 0 1 ''left'' = Inr (Fin (1 / 4))
    \<and> RiemannSum (constant_integrand 1) 4 0 1 ''mid'' = Inr (Fin (1 / 4))
    \<and> RiemannSum (constant_integrand 1) 4 0 1 ''right'' = Inr (Fin (1 / 4))
    \<and> riemann_formula 0 (scalar_call (constant_integrand 1)) 4 0 1 = 1
    \<and> riemann_formula (1 / 2) (scalar_call (constant_integrand 1)) 4 0 1 = 1
    \<and> riemann_formula 1 (scalar_call (constant_integrand 1)) 4 0 1 = 1"
  by (simp add: RiemannSum_def py_get_def constant_integrand_def riemann_formula_def step_size_def)

text \<open>
  Claim C6, amended: for every integrand that acts on every entry of an array (\<^verbatim>\<open>f(X)\<close> is
  the array of the \<^verbatim>\<open>f(X[i])\<close>), every \<open>N \<ge> 1\<close>, all bounds \<open>a\<close>, \<open>b\<close> and each of the kinds
  left, middle and right, \<open>RiemannSum\<close> returns \<open>\<Delta>x \<cdot> \<Sum> f(x\<^sub>i)\<close> over exactly \<open>N\<close> sample
  points, with \<open>x\<^sub>i = a + i \<Delta>x\<close> (\<open>i = 0, ..., N - 1\<close>) for left, \<open>x\<^sub>i = a + (i + 1) \<Delta>x\<close> for
  right and \<open>x\<^sub>i = a + (i + 0.5) \<Delta>x\<close> for middle, where \<open>\<Delta>x = (b - a) / N\<close>. The kinds are
  passed as the strings \<^verbatim>\<open>left\<close>, \<^verbatim>\<open>right\<close> and \<^verbatim>\<open>middle\<close> or \<^verbatim>\<open>mid\<close>.
\<close>

theorem RiemannSum_kinds:
  assumes "1 \<le> N"
  shows "length (range_py N) = nat N
    \<and> step_size a b N = (b - a) / real_of_int N
    \<and> RiemannSum (elementwise f) N a b ''left'' =
        Inr (Fin (step_size a b N * (\<Sum>i<nat N. f (a + real i * step_size a b N))))
    \<and> RiemannSum (elementwise f) N a b ''right'' =
        Inr (Fin (step_size a b N * (\<Sum>i<nat N. f (a + (real i + 1) * step_size a b N))))
    \<and> RiemannSum (elementwise f) N a b ''middle'' =
        Inr (Fin (step_size a b N * (\<Sum>i<nat N. f (a + (real i + 0.5) * step_size a b N))))
    \<and> RiemannSum (elementwise f) N a b ''mid'' =
        Inr (Fin (step_size a b N * (\<Sum>i<nat N. f (a + (real i + 0.5) * step_size a b N))))"
proof -
  have N: "N \<noteq> 0" using assms by simp
  show ?thesis
    by (simp add: RiemannSum_Cons [OF N] length_range_py step_size_def)
qed

theorem RiemannSum_kinds_witness:
  "(1::int) \<le> 4
    \<and> RiemannSum (elementwise (affine_fn 0 1)) 4 0 1 ''left'' = Inr (Fin (3 / 8))
    \<and> RiemannSum (elementwise (affine_fn 0 1)) 4 0 1 ''right'' = Inr (Fin (5 / 8))
    \<and> RiemannSum (elementwise (affine_fn 0 1)) 4 0 1 ''middle'' = Inr (Fin (1 / 2))"
proof -
  have h: "(1::int) \<le> 4" by simp
  have n: "nat 4 = Suc (Suc (Suc (Suc 0)))" by simp
  have e: "step_size 0 1 4 * (\<Sum>i<nat 4. affine_fn 0 1 (0 + real i * step_size 0 1 4)) = 3 / 8"
    "step_size 0 1 4 * (\<Sum>i<nat 4. affine_fn 0 1 (0 + (real i + 1) * step_size 0 1 4)) = 5 / 8"
    "step_size 0 1 4 * (\<Sum>i<nat 4. affine_fn 0 1 (0 + (real i + 0.5) * step_size 0 1 4)) = 1 / 2"
    unfolding n by (simp_all add: affine_fn_def step_size_def)
  show ?thesis
    using RiemannSum_kinds [OF h, of 0 1 "affine_fn 0 1"] h unfolding e by blast
qed

text \<open>
  Claim C7, as stated: over exact arithmetic, for every \<open>N \<ge> 1\<close> and bounds \<open>a \<le> b\<close>, the
  trapezoidal rule returns exactly the integral of \<open>f\<close> over \<open>[a, b]\<close> when \<open>f\<close> is affine, and
  \<open>simpson\<close>, with an even \<open>N \<ge> 2\<close>, returns exactly that integral when \<open>f\<close> is a polynomial
  of degree at most three. The constant integrand \<^verbatim>\<open>lambda x: 1\<close> is affine, with the
  integral \<open>1\<close> over \<open>[0, 1]\<close>, but it returns a float for an array, and the trapezoidal rule
  with \<open>N = 2\<close> returns \<open>(1 + 1) \<cdot> 0.5 \<cdot> 0.5 = 1/2\<close>.
\<close>

theorem polynomial_exactness_counterexample:
  "scalar_call (constant_integrand 1) = affine_fn 1 0
    \<and> affine_primitive 1 0 1 - affine_primitive 1 0 0 = 1
    \<and> trapezoidal (constant_integrand 1) 2 0 1 = Inr (Fin (1 / 2))"
proof -
  have "scalar_call (constant_integrand 1) = affine_fn 1 0"
    by (rule ext) (simp add: constant_integrand_def affine_fn_def)
  moreover have "affine_primitive 1 0 1 - affine_primitive 1 0 0 = 1"
    by (simp add: affine_primitive_def)
  moreover have "trapezoidal (constant_integrand 1) 2 0 1 = Inr (Fin (1 / 2))"
    by (simp add: trapezoidal_def linspace_def range_py_def constant_integrand_def)
  ultimately show ?thesis by blast
qed

text \<open>
  Claim C7, amended: over exact arithmetic, for every \<open>N \<ge> 1\<close> and bounds \<open>a \<le> b\<close>, the
  trapezoidal rule returns exactly the integral of \<open>f\<close> over \<open>[a, b]\<close> when \<open>f\<close> is affine and
  acts on every entry of an array (as \<^verbatim>\<open>lambda x: c0 + c1 * x\<close> does), and \<open>simpson\<close>, with an
  even \<open>N \<ge> 2\<close>, returns exactly that integral when \<open>f\<close> is a polynomial of degree at most
  three. The integral is given twice: by the polynomial primitive of the integrand, and, by
  the fundamental theorem of calculus, as \<open>F b - F a\<close> for any function \<open>F\<close> whose derivative
  on \<open>[a, b]\<close> is \<open>f\<close>.
\<close>

theorem polynomial_exactness:
  assumes "1 \<le> N" and "a \<le> b"
  shows "trapezoidal (elementwise (affine_fn c0 c1)) N a b
           = Inr (Fin (affine_primitive c0 c1 b - affine_primitive c0 c1 a))
    \<and> (\<forall>F. (\<forall>x. a \<le> x \<and> x \<le> b \<longrightarrow> (F has_real_derivative affine_fn c0 c1 x) (at x))
          \<longrightarrow> trapezoidal (elementwise (affine_fn c0 c1)) N a b = Inr (Fin (F b - F a)))
    \<and> (even N \<and> 2 \<le> N \<longrightarrow>
         simpson (cubic_fn k0 k1 k2 k3) N a b
           = Inr (Fin (cubic_primitive k0 k1 k2 k3 b - cubic_primitive k0 k1 k2 k3 a))
       \<and> (\<forall>F. (\<forall>x. a \<le> x \<and> x \<le> b \<longrightarrow> (F has_real_derivative cubic_fn k0 k1 k2 k3 x) (at x))
          \<longrightarrow> simpson (cubic_fn k0 k1 k2 k3) N a b = Inr (Fin (F b - F a))))"
proof (intro conjI allI impI)
  show t: "trapezoidal (elementwise (affine_fn c0 c1)) N a b
           = Inr (Fin (affine_primitive c0 c1 b - affine_primitive c0 c1 a))"
    by (rule trapezoidal_affine [OF assms(1)])
  fix F
  assume "\<forall>x. a \<le> x \<and> x \<le> b \<longrightarrow> (F has_real_derivative affine_fn c0 c1 x) (at x)"
  from primitive_difference [OF assms(2) this] affine_primitive_deriv
  have "F b - F a = affine_primitive c0 c1 b - affine_primitive c0 c1 a" by blast
  with t show "trapezoidal (elementwise (affine_fn c0 c1)) N a b = Inr (Fin (F b - F a))" by simp
next
  assume e: "even N \<and> 2 \<le> N"
  then show s: "simpson (cubic_fn k0 k1 k2 k3) N a b
           = Inr (Fin (cubic_primitive k0 k1 k2 k3 b - cubic_primitive k0 k1 k2 k3 a))"
    by (simp add: simpson_cubic)
  fix F
  assume "\<forall>x. a \<le> x \<and> x \<le> b \<longrightarrow> (F has_real_derivative cubic_fn k0 k1 k2 k3 x) (at x)"
  from primitive_difference [OF assms(2) this] cubic_primitive_deriv
  have "F b - F a = cubic_primitive k0 k1 k2 k3 b - cubic_primitive k0 k1 k2 k3 a" by blast
  with s show "simpson (cubic_fn k0 k1 k2 k3) N a b = Inr (Fin (F b - F a))" by simp
qed

theorem polynomial_exactness_witness:
  "(1::int) \<le> 2 \<and> (0::real) \<le> 1 \<and> even (2::int) \<and> (2::int) \<le> 2
    \<and> trapezoidal (elementwise (affine_fn 0 1)) 2 0 1 = Inr (Fin (1 / 2))
    \<and> simpson (cubic_fn 0 0 0 1) 2 0 1 = Inr (Fin (1 / 4))"
proof -
  have h: "(1::int) \<le> 2" "(0::real) \<le> 1" "even (2::int) \<and> (2::int) \<le> 2" by simp_all
  have d: "\<forall>x. 0 \<le> x \<and> x \<le> 1 \<longrightarrow> (affine_primitive 0 1 has_real_derivative affine_fn 0 1 x) (at x)"
    "\<forall>x. 0 \<le> x \<and> x \<le> 1 \<longrightarrow> (cubic_primitive 0 0 0 1 has_real_derivative cubic_fn 0 0 0 1 x) (at x)"
    by (simp_all add: affine_primitive_deriv cubic_primitive_deriv)
  have e: "affine_primitive 0 1 1 - affine_primitive 0 1 0 = 1 / 2"
    "cubic_primitive 0 0 0 1 1 - cubic_primitive 0 0 0 1 0 = 1 / 4"
    by (simp_all add: affine_primitive_def cubic_primitive_def)
  note p = polynomial_exactness [OF h(1) h(2), of 0 1 0 0 0 1]
  from p have "\<forall>F. (\<forall>x. 0 \<le> x \<and> x \<le> 1 \<longrightarrow> (F has_real_derivative affine_fn 0 1 x) (at x))
          \<longrightarrow> trapezoidal (elementwise (affine_fn 0 1)) 2 0 1 = Inr (Fin (F 1 - F 0))"
    by (elim conjE)
  with d(1) have t: "trapezoidal (elementwise (affine_fn 0 1)) 2 0 1
      = Inr (Fin (affine_primitive 0 1 1 - affine_primitive 0 1 0))"
    by blast
  from p h(3) have "\<forall>F. (\<forall>x. 0 \<le> x \<and> x \<le> 1 \<longrightarrow> (F has_real_derivative cubic_fn 0 0 0 1 x) (at x))
          \<longrightarrow> simpson (cubic_fn 0 0 0 1) 2 0 1 = Inr (Fin (F 1 - F 0))"
    by blast
  with d(2) have s: "simpson (cubic_fn 0 0 0 1) 2 0 1
      = Inr (Fin (cubic_primitive 0 0 0 1 1 - cubic_primitive 0 0 0 1 0))"
    by blast
  from t s show ?thesis using h unfolding e by blast
qed

text \<open>
  Claim C8. Over exact arithmetic, for every integrand \<open>f\<close>, every \<open>N \<ge> 1\<close> and all bounds
  \<open>a\<close>, \<open>b\<close>, the pairwise form \<open>(\<Delta>x / 2) \<cdot> \<Sum>\<^bsub>i < N\<^esub> (f(X\<^sub>i) + f(X\<^bsub>i+1\<^esub>))\<close> of the
  trapezoidal rule equals the closed form
  \<open>\<Delta>x \<cdot> (f(X\<^sub>0)/2 + f(X\<^sub>1) + ... + f(X\<^bsub>N-1\<^esub>) + f(X\<^sub>N)/2)\<close>. The identity holds for the values
  of any \<open>f\<close>; the routine returns this common value when the integrand acts on every
  entry of an array.
\<close>

theorem trapezoidal_closed_form:
  assumes "1 \<le> N"
  shows "step_size a b N / 2 * (\<Sum>i<nat N. f (grid a b N i) + f (grid a b N (i + 1)))
           = trapezoidal_closed f N a b
       \<and> trapezoidal_pairwise f N a b = trapezoidal_closed f N a b
       \<and> trapezoidal (elementwise f) N a b = Inr (Fin (trapezoidal_closed f N a b))"
  using trapezoidal_closed_eq [OF assms, of a b f] trapezoidal_value [OF assms, of f a b]
  by (simp add: trapezoidal_pairwise_def)

theorem trapezoidal_closed_form_witness:
  "(1::int) \<le> 3
    \<and> trapezoidal_pairwise (affine_fn 0 1) 3 0 1 = trapezoidal_closed (affine_fn 0 1) 3 0 1
    \<and> trapezoidal (elementwise (affine_fn 0 1)) 3 0 1
          = Inr (Fin (trapezoidal_closed (affine_fn 0 1) 3 0 1))
    \<and> trapezoidal_closed (affine_fn 0 1) 3 0 1 = 1 / 2"
proof -
  have h: "(1::int) \<le> 3" by simp
  have "{1..<nat 3} = {1, 2}" by auto
  then have e: "trapezoidal_closed (affine_fn 0 1) 3 0 1 = 1 / 2"
    by (simp add: trapezoidal_closed_def affine_fn_def grid_def step_size_def)
  show ?thesis
    using trapezoidal_closed_form [OF h, of 0 1 "affine_fn 0 1"] h e by blast
qed

subsection \<open>Behaviour outside the documented inputs\<close>

text \<open>
  Claim C9. For every odd \<open>N \<ge> 1\<close>, \<open>simpson\<close> returns, without error, the composite
  Simpson sum over only the first \<open>2 \<lfloor>N / 2\<rfloor> = N - 1\<close> sub-intervals with the step
  \<open>\<Delta>x = (b - a) / N\<close>: the last point used is \<open>b - \<Delta>x\<close>, so the final sub-interval
  \<open>[b - \<Delta>x, b]\<close> contributes nothing. Likewise, for \<open>N \<ge> 1\<close> not a multiple of four, \<open>bode\<close>
  sums only the first \<open>4 \<lfloor>N / 4\<rfloor>\<close> sub-intervals and stops at \<open>b - (N mod 4) \<Delta>x\<close>.
\<close>

theorem simpson_bode_truncation:
  "(odd N \<and> 1 \<le> N \<longrightarrow>
      simpson f N a b =
           Inr (Fin (\<Sum>j<nat (N div 2). step_size a b N / 3 *
             (f (grid a b N (2 * j)) + 4 * f (grid a b N (2 * j + 1)) + f (grid a b N (2 * j + 2)))))
      \<and> 2 * nat (N div 2) = nat N - 1
      \<and> grid a b N (2 * nat (N div 2)) = b - step_size a b N) \<and>
   (\<not> 4 dvd N \<and> 1 \<le> N \<longrightarrow>
      bode f N a b =
           Inr (Fin (\<Sum>j<nat (N div 4). step_size a b N / 45 *
             (14 * f (grid a b N (4 * j)) + 64 * f (grid a b N (4 * j + 1))
              + 24 * f (grid a b N (4 * j + 2)) + 64 * f (grid a b N (4 * j + 3))
              + 14 * f (grid a b N (4 * j + 4)))))
      \<and> 4 * nat (N div 4) = nat N - nat (N mod 4) \<and> 0 < N mod 4
      \<and> grid a b N (4 * nat (N div 4)) = b - real_of_int (N mod 4) * step_size a b N)"
proof (intro conjI impI)
  assume h: "odd N \<and> 1 \<le> N"
  then have N: "1 \<le> N" by simp
  show "simpson f N a b =
           Inr (Fin (\<Sum>j<nat (N div 2). step_size a b N / 3 *
             (f (grid a b N (2 * j)) + 4 * f (grid a b N (2 * j + 1)) + f (grid a b N (2 * j + 2)))))"
    by (rule simpson_value [OF N])
  show c: "2 * nat (N div 2) = nat N - 1" using h by (simp add: half_count_odd)
  show "grid a b N (2 * nat (N div 2)) = b - step_size a b N"
    unfolding c using grid_back [OF N, of 1 a b] N by simp
next
  assume h: "\<not> 4 dvd N \<and> 1 \<le> N"
  then have N: "1 \<le> N" by simp
  show "bode f N a b =
           Inr (Fin (\<Sum>j<nat (N div 4). step_size a b N / 45 *
             (14 * f (grid a b N (4 * j)) + 64 * f (grid a b N (4 * j + 1))
              + 24 * f (grid a b N (4 * j + 2)) + 64 * f (grid a b N (4 * j + 3))
              + 14 * f (grid a b N (4 * j + 4)))))"
    by (rule bode_value [OF N])
  show c: "4 * nat (N div 4) = nat N - nat (N mod 4)" by (rule quarter_count_rem [OF N])
  show "0 < N mod 4" using h by presburger
  have "N mod 4 \<le> N" using N by (simp add: zmod_le_nonneg_dividend)
  then have "nat (N mod 4) \<le> nat N" by simp
  from grid_back [OF N this, of a b] show "grid a b N (4 * nat (N div 4)) = b - real_of_int (N mod 4) * step_size a b N"
    unfolding c by simp
qed

theorem simpson_bode_truncation_witness:
  "odd (7::int) \<and> (1::int) \<le> 7 \<and> \<not> 4 dvd (6::int) \<and> (1::int) \<le> 6
    \<and> simpson (affine_fn 1 0) 7 0 1 = Inr (Fin (6 / 7))
    \<and> bode (affine_fn 1 0) 6 0 1 = Inr (Fin (4 / 6))"
proof -
  have h: "odd (7::int) \<and> (1::int) \<le> 7" "\<not> 4 dvd (6::int) \<and> (1::int) \<le> 6" by simp_all
  have e: "(\<Sum>j<nat (7 div 2). step_size 0 1 7 / 3 *
             (affine_fn 1 0 (grid 0 1 7 (2 * j)) + 4 * affine_fn 1 0 (grid 0 1 7 (2 * j + 1))
              + affine_fn 1 0 (grid 0 1 7 (2 * j + 2)))) = 6 / 7"
    by (simp add: affine_fn_def step_size_def)
  have e': "(\<Sum>j<nat (6 div 4). step_size 0 1 6 / 45 *
             (14 * affine_fn 1 0 (grid 0 1 6 (4 * j)) + 64 * affine_fn 1 0 (grid 0 1 6 (4 * j + 1))
              + 24 * affine_fn 1 0 (grid 0 1 6 (4 * j + 2)) + 64 * affine_fn 1 0 (grid 0 1 6 (4 * j + 3))
              + 14 * affine_fn 1 0 (grid 0 1 6 (4 * j + 4)))) = 4 / 6"
    by (simp add: affine_fn_def step_size_def)
  have "simpson (affine_fn 1 0) 7 0 1 = Inr (Fin (6 / 7))"
    using simpson_bode_truncation [of 7 "affine_fn 1 0" 0 1] h(1) unfolding e by blast
  moreover have "bode (affine_fn 1 0) 6 0 1 = Inr (Fin (4 / 6))"
    using simpson_bode_truncation [of 6 "affine_fn 1 0" 0 1] h(2) unfolding e' by blast
  ultimately show ?thesis using h by blast
qed



end
